theory Spec2Isabelle
  imports Main
begin

section \<open>The conversation view (ChatInterface) and its reconciliation poll\<close>

text \<open>
  The component under study is \<^verbatim>\<open>ChatInterface\<close>: a React function component
  holding the conversation log in the state variable \<^verbatim>\<open>messages\<close>, with the
  handler \<^verbatim>\<open>handleSendMessage\<close> (the turn dispatcher), the effect on
  \<^verbatim>\<open>sessionId\<close> with \<^verbatim>\<open>fetchChatHistory\<close> (session switch) and the
  timer-driven \<^verbatim>\<open>checkCalendarEventStatus\<close> (the reconciliation poll).
\<close>

subsection \<open>Data model\<close>

text \<open>
  The \<^verbatim>\<open>details\<close> object of an action. A field that is absent
  (\<^verbatim>\<open>undefined\<close>) is \<open>None\<close>; the strict equality \<^verbatim>\<open>===\<close> of two
  such fields is equality of the options, so two absent fields are equal.
\<close>

record event_details =
  summary :: "string option"
  start_datetime :: "string option"
  end_datetime :: "string option"
  location :: "string option"
  description :: "string option"
  htmlLink :: "string option"
  error :: "string option"

text \<open>
  An action as the remote actor sends it. \<^verbatim>\<open>type\<close> is a string in the source and
  is compared with string literals there. \<open>image_prompt\<close> is the source's
  \<^verbatim>\<open>action.prompt\<close> of an \<^verbatim>\<open>image_created\<close> action (the name \<open>prompt\<close> is kept
  for the field of the submit request).
\<close>

record action =
  type :: string
  details :: "event_details option"
  image_url :: "string option"
  image_prompt :: "string option"

text \<open>
  A message object of the log. \<^verbatim>\<open>actions\<close> is absent on the user's and on the
  error message (\<open>None\<close>), an array otherwise.
\<close>

record message =
  msg_id :: "nat option"
  role :: string
  content :: string
  timestamp :: nat
  actions :: "action list option"
  isError :: bool

text \<open>An entry of the history endpoint's response.\<close>

record history_item =
  item_id :: nat
  message_type :: string
  item_content :: string
  item_timestamp :: nat
  item_actions :: "action list option"

subsection \<open>The scan of \<^verbatim>\<open>checkCalendarEventStatus\<close>\<close>

text \<open>
  \<^verbatim>\<open>message.actions.findIndex(action => action.type === 'calendar_event_pending')\<close>:
  the index of the first pending action, \<open>None\<close> for the source's \<open>-1\<close>.
\<close>

fun findIndex :: "('a \<Rightarrow> bool) \<Rightarrow> 'a list \<Rightarrow> nat option" where
  "findIndex P [] = None"
| "findIndex P (x # xs) =
     (if P x then Some 0 else map_option Suc (findIndex P xs))"

definition is_pending :: "action \<Rightarrow> bool" where
  "is_pending a \<longleftrightarrow> type a = ''calendar_event_pending''"

text \<open>
  The predicate given to \<^verbatim>\<open>historyItem.actions.find\<close>, for the pending action
  \<open>p\<close> (\<^verbatim>\<open>message.actions[pendingEventIndex]\<close>) and a candidate \<open>a\<close>:
  \<^verbatim>\<open>action.type === 'calendar_event_created' && action.details &&
  message.actions[pendingEventIndex].details &&
  action.details.summary === message.actions[pendingEventIndex].details.summary\<close>.
\<close>

definition matches :: "action \<Rightarrow> action \<Rightarrow> bool" where
  "matches p a \<longleftrightarrow>
     type a = ''calendar_event_created'' \<and>
     (case details a of
        None \<Rightarrow> False
      | Some da \<Rightarrow>
          (case details p of
             None \<Rightarrow> False
           | Some dp \<Rightarrow> summary da = summary dp))"

text \<open>
  The inner loop \<^verbatim>\<open>for (const historyItem of updatedHistory)\<close>: the items are
  visited in the order of the response, an item without actions or with an empty
  array is skipped, and the loop breaks at the first item in which \<^verbatim>\<open>find\<close>
  returns an action.
\<close>

fun find_created :: "action \<Rightarrow> history_item list \<Rightarrow> action option" where
  "find_created p [] = None"
| "find_created p (historyItem # rest) =
     (case item_actions historyItem of
        None \<Rightarrow> find_created p rest
      | Some as \<Rightarrow>
          if as = [] then find_created p rest
          else (case find (matches p) as of
                  Some createdEvent \<Rightarrow> Some createdEvent
                | None \<Rightarrow> find_created p rest))"

text \<open>
  The body of the outer loop for one message object: \<open>Some\<close> of the message with
  \<^verbatim>\<open>message.actions[pendingEventIndex] = createdEvent\<close> done when a created event
  was found (the source then sets \<^verbatim>\<open>updated = true\<close>), \<open>None\<close> when the message
  is left as it is.
\<close>

definition scan_message :: "history_item list \<Rightarrow> message \<Rightarrow> message option" where
  "scan_message updatedHistory m =
     (if role m = ''assistant'' then
        (case actions m of
           None \<Rightarrow> None
         | Some as \<Rightarrow>
             if as = [] then None
             else (case findIndex is_pending as of
                     None \<Rightarrow> None
                   | Some pendingEventIndex \<Rightarrow>
                       (case find_created (as ! pendingEventIndex) updatedHistory of
                          None \<Rightarrow> None
                        | Some createdEvent \<Rightarrow>
                            Some (m\<lparr>actions := Some (as[pendingEventIndex := createdEvent])\<rparr>))))
      else None)"

subsection \<open>Message objects, closures and the component state\<close>

text \<open>
  Message objects are shared by reference: \<^verbatim>\<open>[...prev, m]\<close> and
  \<^verbatim>\<open>[...messages]\<close> copy the array, not the objects, and
  \<^verbatim>\<open>message.actions[pendingEventIndex] = createdEvent\<close> writes into the object.
  The objects therefore live in a store (a list, a reference is an index into it) and
  an array of messages is a list of references. Every array of actions belongs to one
  message object only (it comes fresh from a response), so it is held in the object.
  Objects are only ever added at the end of the store; a reference that is out of range
  does not arise, and the functions below leave such a reference alone.
\<close>

type_synonym ref = nat

definition alloc :: "message list \<Rightarrow> message \<Rightarrow> message list \<times> ref" where
  "alloc h m = (h @ [m], length h)"

text \<open>
  A function component runs once per render, and the constants it declares
  (\<^verbatim>\<open>const [messages, setMessages] = useState([])\<close>, the props, the token of
  \<^verbatim>\<open>useAuth\<close>) are fixed for the functions created in that render.
  \<^verbatim>\<open>handleSendMessage\<close> and \<^verbatim>\<open>checkCalendarEventStatus\<close> of one render see
  these values for as long as they run, also after an \<^verbatim>\<open>await\<close> and in a timer
  callback; only \<^verbatim>\<open>setMessages(prev => ...)\<close> reads the state of the moment.
  The timer callback set in \<^verbatim>\<open>handleSendMessage\<close> calls the
  \<^verbatim>\<open>checkCalendarEventStatus\<close> of the same render, which sets the next timer for
  itself: all the polls of a chain run in the closure of the render in which the user
  submitted, and \<^verbatim>\<open>[...messages]\<close> there is the array of that render.
\<close>

record closure =
  c_messages :: "ref list"
  c_input :: string
  c_isLoading :: bool
  c_sessionId :: string
  c_token :: "string option"

text \<open>A callback waiting in \<^verbatim>\<open>setTimeout\<close>: the closure it runs in, its argument, its delay
  in milliseconds.\<close>

record timer =
  t_env :: closure
  t_chatSessionId :: string
  delay :: nat

text \<open>The body of the request to \<^verbatim>\<open>/api/chat\<close> and the data of its response.\<close>

record payload =
  prompt :: string
  message_history :: "(string \<times> string) list"
  session_id :: "string option"
  payload_token :: "string option"

record reply =
  res_response :: string
  res_actions :: "action list option"
  res_session_id :: "string option"

text \<open>What the component does to the outside: the requests it issues and the call of the
  parent's \<^verbatim>\<open>onNewSession\<close>.\<close>

datatype effect = Post payload | Get string | OnNewSession string

text \<open>A request that failed (axios rejects: the \<^verbatim>\<open>catch\<close> branch runs) is \<open>Inl\<close>.\<close>

datatype failure = RequestFailed

record component =
  heap :: "message list"
  messages :: "ref list"
  input :: string
  isLoading :: bool
  sessionId :: string
  token :: "string option"
  timers :: "timer list"
  effects :: "effect list"

text \<open>The values the functions of the current render close over.\<close>

definition render :: "component \<Rightarrow> closure" where
  "render s =
     \<lparr>c_messages = messages s, c_input = input s, c_isLoading = isLoading s,
      c_sessionId = sessionId s, c_token = token s\<rparr>"

text \<open>Truthiness of a string that may be \<^verbatim>\<open>null\<close>: \<^verbatim>\<open>null\<close> and the empty
  string are falsy.\<close>

definition truthy :: "string option \<Rightarrow> bool" where
  "truthy v \<longleftrightarrow> (case v of None \<Rightarrow> False | Some x \<Rightarrow> x \<noteq> [])"

text \<open>\<^verbatim>\<open>setMessages(prev => [...prev, m])\<close> with a new object \<open>m\<close>.\<close>

definition append_message :: "message \<Rightarrow> component \<Rightarrow> component" where
  "append_message m s =
     (case alloc (heap s) m of (h, r) \<Rightarrow> s\<lparr>heap := h, messages := messages s @ [r]\<rparr>)"

subsection \<open>\<^verbatim>\<open>checkCalendarEventStatus\<close>\<close>

text \<open>
  The outer loop \<^verbatim>\<open>for (let i = updatedMessages.length - 1; i >= 0; i--)\<close> over the
  copy of the closure's \<^verbatim>\<open>messages\<close>: it is given the references from the last to
  the first, carries the store and the flag \<^verbatim>\<open>updated\<close>, and goes on to the next
  message after a replacement (the \<^verbatim>\<open>break\<close> leaves the inner loop only).
\<close>

fun scan_loop ::
  "history_item list \<Rightarrow> ref list \<Rightarrow> message list \<times> bool \<Rightarrow> message list \<times> bool" where
  "scan_loop updatedHistory [] (h, updated) = (h, updated)"
| "scan_loop updatedHistory (r # rs) (h, updated) =
     (if r < length h then
        (case scan_message updatedHistory (h ! r) of
           None \<Rightarrow> scan_loop updatedHistory rs (h, updated)
         | Some m' \<Rightarrow> scan_loop updatedHistory rs (h[r := m'], True))
      else scan_loop updatedHistory rs (h, updated))"

text \<open>\<^verbatim>\<open>if (!token || !chatSessionId || chatSessionId === 'new') return;\<close>\<close>

definition poll_guard :: "closure \<Rightarrow> string \<Rightarrow> bool" where
  "poll_guard env chatSessionId \<longleftrightarrow>
     truthy (c_token env) \<and> chatSessionId \<noteq> [] \<and> chatSessionId \<noteq> ''new''"

text \<open>The call up to its \<^verbatim>\<open>await\<close>: the request for the history is issued.\<close>

definition checkCalendarEventStatus_request :: "string \<Rightarrow> component \<Rightarrow> component" where
  "checkCalendarEventStatus_request chatSessionId s =
     s\<lparr>effects := effects s @ [Get chatSessionId]\<rparr>"

text \<open>
  The call from its \<^verbatim>\<open>await\<close> on, in the state of that moment: on a response the
  scan; then \<^verbatim>\<open>setMessages(updatedMessages)\<close>, the array of the closure's references,
  when something was replaced, and a new timer of 3000 ms for the same closure and
  argument otherwise. On a failure the \<^verbatim>\<open>catch\<close> branch only writes to the console.
\<close>

definition checkCalendarEventStatus_resume ::
  "closure \<Rightarrow> string \<Rightarrow> failure + history_item list \<Rightarrow> component \<Rightarrow> component" where
  "checkCalendarEventStatus_resume env chatSessionId result s =
     (case result of
        Inl err \<Rightarrow> s
      | Inr updatedHistory \<Rightarrow>
          (case scan_loop updatedHistory (rev (c_messages env)) (heap s, False) of
             (h, updated) \<Rightarrow>
               if updated then s\<lparr>heap := h, messages := c_messages env\<rparr>
               else s\<lparr>heap := h,
                      timers := timers s @
                        [\<lparr>t_env = env, t_chatSessionId = chatSessionId, delay = 3000\<rparr>]\<rparr>))"

text \<open>The whole call when nothing else runs while the request is under way.\<close>

definition checkCalendarEventStatus ::
  "closure \<Rightarrow> string \<Rightarrow> failure + history_item list \<Rightarrow> component \<Rightarrow> component" where
  "checkCalendarEventStatus env chatSessionId result s =
     (if poll_guard env chatSessionId then
        checkCalendarEventStatus_resume env chatSessionId result
          (checkCalendarEventStatus_request chatSessionId s)
      else s)"

text \<open>
  A tick: the oldest waiting callback runs (all delays are equal, so the callbacks run
  in the order in which they were set) and is gone from the timers.
\<close>

definition tick :: "failure + history_item list \<Rightarrow> component \<Rightarrow> component" where
  "tick result s =
     (case timers s of
        [] \<Rightarrow> s
      | t # ts \<Rightarrow>
          checkCalendarEventStatus (t_env t) (t_chatSessionId t) result (s\<lparr>timers := ts\<rparr>))"

subsection \<open>\<^verbatim>\<open>handleSendMessage\<close>\<close>

text \<open>
  \<^verbatim>\<open>String.prototype.trim\<close> removes white space and line terminators from both ends.
  Of these the type \<open>char\<close> holds the tab, line feed, vertical tab, form feed, carriage
  return, the space and the no-break space.
\<close>

definition is_space :: "char \<Rightarrow> bool" where
  "is_space c \<longleftrightarrow> of_char c \<in> {9, 10, 11, 12, 13, 32, 160 :: nat}"

definition trim :: "string \<Rightarrow> string" where
  "trim x = rev (dropWhile is_space (rev (dropWhile is_space x)))"

text \<open>The input field: its \<^verbatim>\<open>onChange\<close> handler calls \<^verbatim>\<open>setInput\<close> with the text of
  the field.\<close>

definition setInput :: "string \<Rightarrow> component \<Rightarrow> component" where
  "setInput x s = s\<lparr>input := x\<rparr>"

text \<open>\<^verbatim>\<open>if (!input.trim() || isLoading) return;\<close> is taken when this is false.\<close>

definition send_guard :: "closure \<Rightarrow> bool" where
  "send_guard env \<longleftrightarrow> trim (c_input env) \<noteq> [] \<and> \<not> c_isLoading env"

definition userMessage :: "closure \<Rightarrow> nat \<Rightarrow> message" where
  "userMessage env now =
     \<lparr>msg_id = None, role = ''user'', content = c_input env, timestamp = now,
      actions = None, isError = False\<rparr>"

text \<open>\<^verbatim>\<open>messages.map(msg => ({ role: msg.role, content: msg.content }))\<close> on the
  closure's array.\<close>

definition history_of :: "message list \<Rightarrow> ref list \<Rightarrow> (string \<times> string) list" where
  "history_of h refs = map (\<lambda>r. (role (h ! r), content (h ! r))) (filter (\<lambda>r. r < length h) refs)"

definition request_payload :: "closure \<Rightarrow> message list \<Rightarrow> payload" where
  "request_payload env h =
     \<lparr>prompt = c_input env,
      message_history = history_of h (c_messages env),
      session_id = (if c_sessionId env = ''new'' then None else Some (c_sessionId env)),
      payload_token = c_token env\<rparr>"

text \<open>
  The call up to \<^verbatim>\<open>await axios.post\<close>, at the time \<open>now\<close>: the guard, the optimistic
  append of the user's message, \<^verbatim>\<open>setInput('')\<close>, \<^verbatim>\<open>setIsLoading(true)\<close>, and the
  request with the payload built from the closure.
\<close>

definition handleSendMessage_request :: "closure \<Rightarrow> nat \<Rightarrow> component \<Rightarrow> component" where
  "handleSendMessage_request env now s =
     (if \<not> send_guard env then s
      else
        (let s1 = append_message (userMessage env now) s;
             s2 = s1\<lparr>input := [], isLoading := True\<rparr>
         in s2\<lparr>effects := effects s2 @ [Post (request_payload env (heap s))]\<rparr>))"

definition is_calendar_event :: "action \<Rightarrow> bool" where
  "is_calendar_event a \<longleftrightarrow>
     type a = ''calendar_event_created'' \<or> type a = ''calendar_event_pending''"

definition assistantMessage :: "reply \<Rightarrow> nat \<Rightarrow> message" where
  "assistantMessage d now =
     \<lparr>msg_id = None, role = ''assistant'', content = res_response d, timestamp = now,
      actions = Some (case res_actions d of None \<Rightarrow> [] | Some as \<Rightarrow> as), isError = False\<rparr>"

definition errorMessage :: "nat \<Rightarrow> message" where
  "errorMessage now =
     \<lparr>msg_id = None, role = ''assistant'',
      content = ''Sorry, I encountered an error processing your request. Please try again.'',
      timestamp = now, actions = None, isError = True\<rparr>"

text \<open>\<^verbatim>\<open>response.data.session_id || sessionId\<close>\<close>

definition session_or :: "string option \<Rightarrow> string \<Rightarrow> string" where
  "session_or v current = (case v of None \<Rightarrow> current | Some x \<Rightarrow> if x = [] then current else x)"

text \<open>
  The call from \<^verbatim>\<open>await axios.post\<close> on, at the time \<open>now\<close>. On a response: the
  assistant's message is appended, the parent is told the identifier of a new session,
  and a timer of 3000 ms is set when one of the new actions is a created or pending
  calendar event. On a failure: the error message is appended. In both cases
  \<^verbatim>\<open>finally\<close> ends with \<^verbatim>\<open>setIsLoading(false)\<close>.
\<close>

definition handleSendMessage_resume ::
  "closure \<Rightarrow> nat \<Rightarrow> failure + reply \<Rightarrow> component \<Rightarrow> component" where
  "handleSendMessage_resume env now result s =
     (case result of
        Inr d \<Rightarrow>
          (let newActions = (case res_actions d of None \<Rightarrow> [] | Some as \<Rightarrow> as);
               s1 = append_message (assistantMessage d now) s;
               s2 = (case res_session_id d of
                       None \<Rightarrow> s1
                     | Some x \<Rightarrow>
                         if c_sessionId env = ''new'' \<and> x \<noteq> []
                         then s1\<lparr>effects := effects s1 @ [OnNewSession x]\<rparr>
                         else s1);
               s3 = (if list_ex is_calendar_event newActions
                     then s2\<lparr>timers := timers s2 @
                            [\<lparr>t_env = env,
                              t_chatSessionId = session_or (res_session_id d) (c_sessionId env),
                              delay = 3000\<rparr>]\<rparr>
                     else s2)
           in s3\<lparr>isLoading := False\<rparr>)
      | Inl err \<Rightarrow> (append_message (errorMessage now) s)\<lparr>isLoading := False\<rparr>)"

text \<open>
  A submit from the current render, with nothing else running while the request is
  under way: the handler is the one of the render of the state \<open>s\<close>.
\<close>

definition handleSendMessage ::
  "nat \<Rightarrow> nat \<Rightarrow> failure + reply \<Rightarrow> component \<Rightarrow> component" where
  "handleSendMessage now now' result s =
     (if \<not> send_guard (render s) then s
      else handleSendMessage_resume (render s) now' result
             (handleSendMessage_request (render s) now s))"

subsection \<open>Session switch\<close>

text \<open>
  \<^verbatim>\<open>fetchChatHistory\<close> from its \<^verbatim>\<open>await\<close> on: the response becomes the new array of
  messages, each entry a new object; a failure is written to the console.
\<close>

definition formatted :: "history_item \<Rightarrow> message" where
  "formatted msg =
     \<lparr>msg_id = Some (item_id msg), role = message_type msg, content = item_content msg,
      timestamp = item_timestamp msg,
      actions = Some (case item_actions msg of None \<Rightarrow> [] | Some as \<Rightarrow> as), isError = False\<rparr>"

definition fetchChatHistory_resume ::
  "failure + history_item list \<Rightarrow> component \<Rightarrow> component" where
  "fetchChatHistory_resume result s =
     (case result of
        Inl err \<Rightarrow> s
      | Inr history \<Rightarrow>
          s\<lparr>heap := heap s @ map formatted history,
            messages := [length (heap s) ..< length (heap s) + length history]\<rparr>)"

text \<open>
  The parent passes another \<^verbatim>\<open>sessionId\<close>; the effect on it runs: for an identifier
  other than \<^verbatim>\<open>'new'\<close> \<^verbatim>\<open>fetchChatHistory\<close> is called (it returns at once without a
  token), otherwise \<^verbatim>\<open>setMessages([])\<close>. Nothing here touches a timer.
\<close>

definition switchSession :: "string \<Rightarrow> component \<Rightarrow> component" where
  "switchSession newId s =
     (if newId = sessionId s then s
      else
        (let s1 = s\<lparr>sessionId := newId\<rparr>
         in if newId \<noteq> [] \<and> newId \<noteq> ''new''
            then (if truthy (token s1) then s1\<lparr>effects := effects s1 @ [Get newId]\<rparr> else s1)
            else s1\<lparr>messages := []\<rparr>))"

subsection \<open>Notions used to state the properties\<close>

text \<open>All the actions of a history response, in the order of the response.\<close>

definition history_actions :: "history_item list \<Rightarrow> action list" where
  "history_actions updatedHistory =
     concat (map (\<lambda>historyItem. case item_actions historyItem of None \<Rightarrow> [] | Some as \<Rightarrow> as)
       updatedHistory)"

text \<open>What one pass of the outer loop leaves of a message object.\<close>

definition step_message :: "history_item list \<Rightarrow> message \<Rightarrow> message" where
  "step_message updatedHistory m =
     (case scan_message updatedHistory m of None \<Rightarrow> m | Some m' \<Rightarrow> m')"

text \<open>The references of an array are objects of the store, each once.\<close>

definition valid_refs :: "message list \<Rightarrow> ref list \<Rightarrow> bool" where
  "valid_refs h refs \<longleftrightarrow> distinct refs \<and> list_all (\<lambda>r. r < length h) refs"

text \<open>The arrays of the view, that of the state and those of the waiting callbacks' closures,
  refer to objects of the store.\<close>

definition wellformed :: "component \<Rightarrow> bool" where
  "wellformed s \<longleftrightarrow>
     valid_refs (heap s) (messages s) \<and>
     list_all (\<lambda>t. valid_refs (heap s) (c_messages (t_env t))) (timers s)"

text \<open>No message of the array has a pending action that the history resolves.\<close>

definition no_match :: "history_item list \<Rightarrow> message list \<Rightarrow> ref list \<Rightarrow> bool" where
  "no_match updatedHistory h refs \<longleftrightarrow>
     list_all (\<lambda>r. r < length h \<longrightarrow> scan_message updatedHistory (h ! r) = None) refs"


subsection \<open>Example data\<close>

definition event :: "string \<Rightarrow> string \<Rightarrow> event_details" where
  "event title start =
     \<lparr>summary = Some title, start_datetime = Some start, end_datetime = None,
      location = None, description = None, htmlLink = None, error = None\<rparr>"

definition calendar_action :: "string \<Rightarrow> string \<Rightarrow> string \<Rightarrow> action" where
  "calendar_action kind title start =
     \<lparr>type = kind, details = Some (event title start), image_url = None, image_prompt = None\<rparr>"

definition entry :: "nat \<Rightarrow> string \<Rightarrow> string \<Rightarrow> action list \<Rightarrow> history_item" where
  "entry n who txt as =
     \<lparr>item_id = n, message_type = who, item_content = txt, item_timestamp = n,
      item_actions = Some as\<rparr>"

text \<open>
  The view as it is mounted, on a new conversation; then the parent selects the session
  \<open>s1\<close>, and the request for its history is under way.
\<close>

definition mounted :: component where
  "mounted =
     \<lparr>heap = [], messages = [], input = [], isLoading = False, sessionId = ''new'',
      token = Some ''tok'', timers = [], effects = []\<rparr>"

definition opened :: component where
  "opened = switchSession ''s1'' mounted"

text \<open>The stored history: a request for a team sync, answered with a pending event.\<close>

definition sync_history :: "history_item list" where
  "sync_history =
     [entry 1 ''user'' ''Schedule team sync'' [],
      entry 2 ''assistant'' ''Scheduling it.''
        [calendar_action ''calendar_event_pending'' ''team sync'' ''Mon 14:00'']]"

text \<open>The same history once the event is created, and once it has failed.\<close>

definition created_history :: "history_item list" where
  "created_history =
     [entry 1 ''user'' ''Schedule team sync'' [],
      entry 2 ''assistant'' ''Scheduling it.''
        [calendar_action ''calendar_event_created'' ''team sync'' ''Mon 14:00'']]"

definition failed_history :: "history_item list" where
  "failed_history =
     [entry 1 ''user'' ''Schedule team sync'' [],
      entry 2 ''assistant'' ''Scheduling it.''
        [calendar_action ''calendar_event_failed'' ''team sync'' ''Mon 14:00'']]"

text \<open>The view with the stored history loaded.\<close>

definition loaded :: component where
  "loaded = fetchChatHistory_resume (Inr sync_history) opened"

text \<open>
  The user then asks for a second event; the reply carries a pending action, so a
  poll is set. Its closure is the one of the render in which the user submitted.
\<close>

definition lunch_reply :: reply where
  "lunch_reply =
     \<lparr>res_response = ''Scheduling lunch.'',
      res_actions = Some [calendar_action ''calendar_event_pending'' ''lunch'' ''Tue 12:00''],
      res_session_id = Some ''s1''\<rparr>"

definition asking :: component where
  "asking = setInput ''and a lunch'' loaded"

definition polling :: component where
  "polling = handleSendMessage 10 11 (Inr lunch_reply) asking"

text \<open>
  A stored history with two requests of the same title, for Monday and for Tuesday,
  both pending; the same history once the Monday event is created; and the view that
  has loaded the first and then set a poll as above.
\<close>

definition twin_history :: "history_item list" where
  "twin_history =
     sync_history @
     [entry 3 ''user'' ''Schedule team sync'' [],
      entry 4 ''assistant'' ''Scheduling it.''
        [calendar_action ''calendar_event_pending'' ''team sync'' ''Tue 14:00'']]"

definition twin_created_history :: "history_item list" where
  "twin_created_history =
     created_history @
     [entry 3 ''user'' ''Schedule team sync'' [],
      entry 4 ''assistant'' ''Scheduling it.''
        [calendar_action ''calendar_event_pending'' ''team sync'' ''Tue 14:00'']]"

definition twins :: component where
  "twins =
     handleSendMessage 10 11 (Inr lunch_reply)
       (setInput ''and a lunch'' (fetchChatHistory_resume (Inr twin_history) opened))"

text \<open>
  A poll of the view \<open>polling\<close> step by step: its timer has run out and the request for
  the history is under way; the user submits another message; then the response
  arrives, with the created event.
\<close>

definition in_flight :: component where
  "in_flight = checkCalendarEventStatus_request ''s1'' (polling\<lparr>timers := []\<rparr>)"

definition thanking :: component where
  "thanking =
     handleSendMessage_request (render (setInput ''thanks'' in_flight)) 12
       (setInput ''thanks'' in_flight)"

definition reconciled :: component where
  "reconciled =
     checkCalendarEventStatus_resume (render asking) ''s1'' (Inr created_history) thanking"

text \<open>
  A stored history with two pending events of different titles; the same history once
  both are created; and the view that has loaded the first and then set a poll as
  above.
\<close>

definition pair_history :: "history_item list" where
  "pair_history =
     sync_history @
     [entry 3 ''user'' ''and the dentist'' [],
      entry 4 ''assistant'' ''Scheduling it.''
        [calendar_action ''calendar_event_pending'' ''dentist'' ''Wed 9:00'']]"

definition pair_created_history :: "history_item list" where
  "pair_created_history =
     created_history @
     [entry 3 ''user'' ''and the dentist'' [],
      entry 4 ''assistant'' ''Scheduling it.''
        [calendar_action ''calendar_event_created'' ''dentist'' ''Wed 9:00'']]"

definition pair :: component where
  "pair =
     handleSendMessage 10 11 (Inr lunch_reply)
       (setInput ''and a lunch'' (fetchChatHistory_resume (Inr pair_history) opened))"


section \<open>Properties\<close>

subsection \<open>Auxiliary facts\<close>

lemma findIndex_SomeD:
  "findIndex P xs = Some i \<Longrightarrow> i < length xs \<and> P (xs ! i) \<and> (\<forall>j<i. \<not> P (xs ! j))"
proof (induction xs arbitrary: i)
  case Nil
  then show ?case by simp
next
  case (Cons x xs)
  show ?case
  proof (cases "P x")
    case True
    with Cons.prems show ?thesis by simp
  next
    case False
    with Cons.prems obtain k where k: "findIndex P xs = Some k" "i = Suc k"
      by auto
    from Cons.IH[OF k(1)] False k(2) show ?thesis
      by (auto simp: nth_Cons split: nat.splits)
  qed
qed

lemma find_append:
  "find P (xs @ ys) = (case find P xs of Some x \<Rightarrow> Some x | None \<Rightarrow> find P ys)"
  by (induction xs) auto

lemma find_SomeD: "find P xs = Some x \<Longrightarrow> P x \<and> x \<in> set xs"
  by (induction xs) (auto split: if_splits)

lemma find_created_find:
  "find_created p updatedHistory = find (matches p) (history_actions updatedHistory)"
  by (induction updatedHistory)
     (auto simp: history_actions_def find_append split: option.splits)

lemma matchesD:
  "matches p a \<Longrightarrow>
     type a = ''calendar_event_created'' \<and>
     (\<exists>da dp. details a = Some da \<and> details p = Some dp \<and> summary da = summary dp)"
  by (auto simp: matches_def split: option.splits)

lemma matches_eq:
  "matches p =
     (\<lambda>a. type a = ''calendar_event_created'' \<and>
        (\<exists>da dp. details a = Some da \<and> details p = Some dp \<and> summary da = summary dp))"
  by (auto simp: matches_def fun_eq_iff split: option.splits)

lemma scan_loop_length: "length (fst (scan_loop hist rs (h, u))) = length h"
  by (induction rs arbitrary: h u) (auto split: option.splits)


lemma scan_loop_nth:
  "distinct rs \<Longrightarrow> \<forall>r\<in>set rs. r < length h \<Longrightarrow> k < length h \<Longrightarrow>
   fst (scan_loop hist rs (h, u)) ! k =
     (if k \<in> set rs then step_message hist (h ! k) else h ! k)"
proof (induction rs arbitrary: h u)
  case Nil
  then show ?case by simp
next
  case (Cons r rs)
  have r: "r < length h" "r \<notin> set rs" and rs: "distinct rs" "\<forall>x\<in>set rs. x < length h"
    using Cons.prems by auto
  show ?case
  proof (cases "scan_message hist (h ! r)")
    case None
    have "fst (scan_loop hist (r # rs) (h, u)) ! k = fst (scan_loop hist rs (h, u)) ! k"
      using r None by simp
    also have "\<dots> = (if k \<in> set rs then step_message hist (h ! k) else h ! k)"
      using Cons.IH[OF rs Cons.prems(3)] .
    finally show ?thesis
      using None r by (auto simp: step_message_def)
  next
    case (Some m')
    let ?h = "h[r := m']"
    have rs': "\<forall>x\<in>set rs. x < length ?h" and k': "k < length ?h"
      using rs Cons.prems(3) by auto
    have "fst (scan_loop hist (r # rs) (h, u)) ! k = fst (scan_loop hist rs (?h, True)) ! k"
      using r Some by simp
    also have "\<dots> = (if k \<in> set rs then step_message hist (?h ! k) else ?h ! k)"
      using Cons.IH[OF rs(1) rs' k'] .
    finally show ?thesis
      using Some r Cons.prems(3) by (auto simp: step_message_def nth_list_update)
  qed
qed

lemma scan_loop_updated:
  "distinct rs \<Longrightarrow> \<forall>r\<in>set rs. r < length h \<Longrightarrow>
   snd (scan_loop hist rs (h, u)) \<longleftrightarrow> u \<or> (\<exists>r\<in>set rs. scan_message hist (h ! r) \<noteq> None)"
proof (induction rs arbitrary: h u)
  case Nil
  then show ?case by simp
next
  case (Cons r rs)
  have r: "r < length h" "r \<notin> set rs" and rs: "distinct rs" "\<forall>x\<in>set rs. x < length h"
    using Cons.prems by auto
  show ?case
  proof (cases "scan_message hist (h ! r)")
    case None
    then show ?thesis
      using r Cons.IH[OF rs, of u] by simp
  next
    case (Some m')
    let ?h = "h[r := m']"
    have rs': "\<forall>x\<in>set rs. x < length ?h"
      using rs by auto
    show ?thesis
      using r Some Cons.IH[OF rs(1) rs', of True] by simp
  qed
qed

text \<open>
  Typing, a switch of the session, the arrival of a history, a submit and a tick keep
  the arrays of the view referring to objects of the store, each object once: the
  conditions under which the properties of the scan and of the submit are stated below
  hold in the states these steps lead to.
\<close>

lemma valid_refs_grow:
  "valid_refs h refs \<Longrightarrow> length h \<le> length h' \<Longrightarrow> valid_refs h' refs"
  by (auto simp: valid_refs_def list_all_iff)

lemma valid_refs_fresh:
  "valid_refs h refs \<Longrightarrow> valid_refs (h @ [m]) (refs @ [length h])"
  by (auto simp: valid_refs_def list_all_iff)

lemma wellformed_append_message:
  "wellformed s \<Longrightarrow> wellformed (append_message m s)"
  by (auto simp: wellformed_def append_message_def alloc_def valid_refs_fresh list_all_iff
      intro: valid_refs_grow)

lemma wellformed_setInput: "wellformed s \<Longrightarrow> wellformed (setInput x s)"
  by (simp add: wellformed_def setInput_def)

lemma wellformed_switchSession: "wellformed s \<Longrightarrow> wellformed (switchSession newId s)"
  by (simp add: wellformed_def switchSession_def Let_def valid_refs_def)

lemma wellformed_fetchChatHistory:
  "wellformed s \<Longrightarrow> wellformed (fetchChatHistory_resume result s)"
  by (cases result)
     (fastforce simp: wellformed_def fetchChatHistory_resume_def valid_refs_def list_all_iff
        intro: trans_less_add1)+

lemma wellformed_handleSendMessage:
  assumes "wellformed s"
  shows "wellformed (handleSendMessage now now' result s)"
proof (cases "send_guard (render s)")
  case False
  with assms show ?thesis by (simp add: handleSendMessage_def)
next
  case True
  let ?u = "append_message (userMessage (render s) now) s"
  have u: "wellformed ?u"
    using assms by (rule wellformed_append_message)
  have env: "valid_refs (heap ?u) (c_messages (render s))"
    using assms
    by (auto simp: wellformed_def render_def append_message_def alloc_def intro: valid_refs_grow)
  have step: "wellformed (handleSendMessage_resume (render s) now' result s')"
    if "wellformed s'" "valid_refs (heap s') (c_messages (render s))" for s'
  proof (cases result)
    case (Inl err)
    with wellformed_append_message[OF that(1), of "errorMessage now'"] show ?thesis
      by (simp add: handleSendMessage_resume_def wellformed_def)
  next
    case (Inr d)
    let ?a = "append_message (assistantMessage d now') s'"
    have a: "wellformed ?a"
      using that(1) by (rule wellformed_append_message)
    have e: "valid_refs (heap ?a) (c_messages (render s))"
      using that(2) by (auto simp: append_message_def alloc_def intro: valid_refs_grow)
    from a e Inr show ?thesis
      by (auto simp: handleSendMessage_resume_def wellformed_def Let_def split: option.splits)
  qed
  have "wellformed (?u\<lparr>input := [], isLoading := True,
      effects := effects ?u @ [Post (request_payload (render s) (heap s))]\<rparr>)"
    using u by (simp add: wellformed_def)
  moreover have "valid_refs (heap (?u\<lparr>input := [], isLoading := True,
      effects := effects ?u @ [Post (request_payload (render s) (heap s))]\<rparr>)) (c_messages (render s))"
    using env by simp
  ultimately show ?thesis
    using True step by (simp add: handleSendMessage_def handleSendMessage_request_def Let_def)
qed

lemma wellformed_tick:
  assumes "wellformed s"
  shows "wellformed (tick result s)"
proof (cases "timers s")
  case Nil
  with assms show ?thesis by (simp add: tick_def)
next
  case (Cons t ts)
  let ?env = "t_env t"
  have t: "valid_refs (heap s) (c_messages ?env)"
    and ts: "list_all (\<lambda>t. valid_refs (heap s) (c_messages (t_env t))) ts"
    and m: "valid_refs (heap s) (messages s)"
    using assms Cons by (simp_all add: wellformed_def)
  show ?thesis
  proof (cases "poll_guard ?env (t_chatSessionId t)")
    case False
    with Cons ts m show ?thesis
      by (simp add: tick_def checkCalendarEventStatus_def wellformed_def)
  next
    case True
    show ?thesis
    proof (cases result)
      case (Inl err)
      with True Cons ts m show ?thesis
        by (simp add: tick_def checkCalendarEventStatus_def checkCalendarEventStatus_resume_def
            checkCalendarEventStatus_request_def wellformed_def)
    next
      case (Inr hist)
      obtain h u where r: "scan_loop hist (rev (c_messages ?env)) (heap s, False) = (h, u)"
        by (cases "scan_loop hist (rev (c_messages ?env)) (heap s, False)")
      have len: "length h = length (heap s)"
        using scan_loop_length[of hist "rev (c_messages ?env)" "heap s" False] r by simp
      have grow: "valid_refs h refs" if "valid_refs (heap s) refs" for refs
        using that len by (auto intro: valid_refs_grow)
      from ts have ts': "list_all (\<lambda>t. valid_refs h (c_messages (t_env t))) ts"
        by (auto simp: list_all_iff grow)
      from True Cons Inr r ts' grow[OF t] grow[OF m] show ?thesis
        by (simp add: tick_def checkCalendarEventStatus_def checkCalendarEventStatus_resume_def
            checkCalendarEventStatus_request_def wellformed_def)
    qed
  qed
qed

lemmas example_defs =
  mounted_def opened_def loaded_def asking_def polling_def lunch_reply_def
  sync_history_def created_history_def failed_history_def
  entry_def calendar_action_def event_def

lemmas model_defs =
  fetchChatHistory_resume_def formatted_def switchSession_def setInput_def
  handleSendMessage_def handleSendMessage_resume_def handleSendMessage_request_def
  send_guard_def render_def trim_def is_space_def append_message_def alloc_def
  assistantMessage_def userMessage_def errorMessage_def is_calendar_event_def
  session_or_def request_payload_def history_of_def
  tick_def checkCalendarEventStatus_def checkCalendarEventStatus_resume_def
  checkCalendarEventStatus_request_def poll_guard_def truthy_def
  scan_message_def is_pending_def matches_def history_actions_def


lemma scan_message_iff:
  "scan_message updatedHistory m = Some m' \<longleftrightarrow>
     (\<exists>as i c. role m = ''assistant'' \<and> actions m = Some as \<and> findIndex is_pending as = Some i \<and>
        find (matches (as ! i)) (history_actions updatedHistory) = Some c \<and>
        m' = m\<lparr>actions := Some (as[i := c])\<rparr>)"
  by (auto simp: scan_message_def find_created_find split: option.splits if_splits)

text \<open>The store, the timers and the flag after a poll.\<close>

lemma scan_loop_True: "snd (scan_loop hist rs (h, True))"
  by (induction rs arbitrary: h) (auto split: option.splits)

lemma scan_loop_flag:
  "snd (scan_loop hist rs (h, u)) \<longleftrightarrow> u \<or> \<not> no_match hist h rs"
proof (induction rs arbitrary: h u)
  case Nil
  then show ?case by (simp add: no_match_def)
next
  case (Cons r rs)
  show ?case
  proof (cases "r < length h \<and> scan_message hist (h ! r) \<noteq> None")
    case True
    then obtain m' where "scan_message hist (h ! r) = Some m'" by auto
    with True show ?thesis
      by (simp add: scan_loop_True no_match_def)
  next
    case False
    then have "scan_loop hist (r # rs) (h, u) = scan_loop hist rs (h, u)"
      by auto
    with False Cons.IH[of h u] show ?thesis
      by (auto simp: no_match_def)
  qed
qed

lemma poll_heap:
  "poll_guard env chatSessionId \<Longrightarrow>
   heap (checkCalendarEventStatus env chatSessionId (Inr hist) s) =
     fst (scan_loop hist (rev (c_messages env)) (heap s, False))"
  by (simp add: checkCalendarEventStatus_def checkCalendarEventStatus_resume_def
      checkCalendarEventStatus_request_def split: prod.splits)

lemma poll_heap_nth:
  assumes "poll_guard env chatSessionId" "valid_refs (heap s) (c_messages env)"
  shows "length (heap (checkCalendarEventStatus env chatSessionId (Inr hist) s)) = length (heap s)"
    and "k < length (heap s) \<Longrightarrow>
      heap (checkCalendarEventStatus env chatSessionId (Inr hist) s) ! k =
        (if k \<in> set (c_messages env) then step_message hist (heap s ! k) else heap s ! k)"
proof -
  have d: "distinct (rev (c_messages env))"
    and r: "\<forall>r\<in>set (rev (c_messages env)). r < length (heap s)"
    using assms(2) by (simp_all add: valid_refs_def list_all_iff)
  show "length (heap (checkCalendarEventStatus env chatSessionId (Inr hist) s)) = length (heap s)"
    by (simp add: poll_heap[OF assms(1)] scan_loop_length)
  show "heap (checkCalendarEventStatus env chatSessionId (Inr hist) s) ! k =
        (if k \<in> set (c_messages env) then step_message hist (heap s ! k) else heap s ! k)"
    if "k < length (heap s)"
    using scan_loop_nth[OF d r that, of hist False] by (simp add: poll_heap[OF assms(1)])
qed

lemma poll_timers:
  assumes "poll_guard env chatSessionId"
  shows "timers (checkCalendarEventStatus env chatSessionId (Inr hist) s) =
     (if no_match hist (heap s) (c_messages env)
      then timers s @ [\<lparr>t_env = env, t_chatSessionId = chatSessionId, delay = 3000\<rparr>]
      else timers s)"
proof -
  obtain h u where r: "scan_loop hist (rev (c_messages env)) (heap s, False) = (h, u)"
    by (cases "scan_loop hist (rev (c_messages env)) (heap s, False)")
  have "u \<longleftrightarrow> \<not> no_match hist (heap s) (c_messages env)"
    using scan_loop_flag[of hist "rev (c_messages env)" "heap s" False] r
    by (simp add: no_match_def)
  with assms r show ?thesis
    by (simp add: checkCalendarEventStatus_def checkCalendarEventStatus_resume_def
        checkCalendarEventStatus_request_def)
qed



lemma tick_Cons:
  "timers s = t # ts \<Longrightarrow>
   tick result s =
     checkCalendarEventStatus (t_env t) (t_chatSessionId t) result (s\<lparr>timers := ts\<rparr>)"
  by (simp add: tick_def)

subsection \<open>C1: what a poll looks for in the history\<close>




subsection \<open>C2: pending actions with the same summary\<close>

text \<open>
  C2, as the code has it. A poll identifies a pending action by the summary of its
  details alone. When two assistant's messages of the poll's snapshot have first pending
  actions that both have details, with equal summaries, the poll treats the two
  messages alike: when the response has no created action with details of that summary,
  both are left as they were; otherwise the first such action of the response is put in
  the place of both pending actions. So one of them can be replaced by the event created
  for the other.
\<close>

theorem equal_summaries_resolve_alike:
  assumes "poll_guard env chatSessionId"
    and "valid_refs (heap s) (c_messages env)"
    and "checkCalendarEventStatus env chatSessionId (Inr updatedHistory) s = s'"
    and "r1 \<in> set (c_messages env)" "r2 \<in> set (c_messages env)"
    and "role (heap s ! r1) = ''assistant''" "role (heap s ! r2) = ''assistant''"
    and "actions (heap s ! r1) = Some as1" "actions (heap s ! r2) = Some as2"
    and "findIndex is_pending as1 = Some i1" "findIndex is_pending as2 = Some i2"
    and "details (as1 ! i1) = Some d1" "details (as2 ! i2) = Some d2"
    and "summary d1 = summary d2"
  shows
    "(find (\<lambda>a. type a = ''calendar_event_created'' \<and>
              (\<exists>da. details a = Some da \<and> summary da = summary d1))
        (history_actions updatedHistory) = None \<longrightarrow>
        heap s' ! r1 = heap s ! r1 \<and> heap s' ! r2 = heap s ! r2) \<and>
     (\<forall>c. find (\<lambda>a. type a = ''calendar_event_created'' \<and>
                 (\<exists>da. details a = Some da \<and> summary da = summary d1))
           (history_actions updatedHistory) = Some c \<longrightarrow>
        heap s' ! r1 = (heap s ! r1)\<lparr>actions := Some (as1[i1 := c])\<rparr> \<and>
        heap s' ! r2 = (heap s ! r2)\<lparr>actions := Some (as2[i2 := c])\<rparr>)"
proof -
  let ?Q = "\<lambda>a. type a = ''calendar_event_created'' \<and>
              (\<exists>da. details a = Some da \<and> summary da = summary d1)"
  have s': "s' = checkCalendarEventStatus env chatSessionId (Inr updatedHistory) s"
    using assms(3) by simp
  have range: "\<forall>r\<in>set (c_messages env). r < length (heap s)"
    using assms(2) by (simp add: valid_refs_def list_all_iff)
  have inside: "heap s' ! r = step_message updatedHistory (heap s ! r)"
    if "r \<in> set (c_messages env)" for r
    unfolding s' using poll_heap_nth(2)[OF assms(1,2), of r updatedHistory] range that by simp
  have q1: "matches (as1 ! i1) = ?Q"
    using assms(12) by (auto simp: matches_eq fun_eq_iff)
  have q2: "matches (as2 ! i2) = ?Q"
    using assms(13,14) by (auto simp: matches_eq fun_eq_iff)
  have step: "step_message updatedHistory m =
      (case find ?Q (history_actions updatedHistory) of
         None \<Rightarrow> m | Some c \<Rightarrow> m\<lparr>actions := Some (as[i := c])\<rparr>)"
    if "role m = ''assistant''" "actions m = Some as" "findIndex is_pending as = Some i"
      "matches (as ! i) = ?Q" for m as i
  proof -
    have "as \<noteq> []"
      using that(3) by auto
    then show ?thesis
      using that by (simp add: step_message_def scan_message_def find_created_find
          split: option.splits)
  qed
  show ?thesis
    using inside[OF assms(4)] inside[OF assms(5)]
      step[OF assms(6,8,10) q1] step[OF assms(7,9,11) q2]
    by simp
qed

text \<open>The theorem at the two pending team syncs, for the history with the Monday event
  created and for the history with both pending.\<close>

theorem equal_summaries_resolve_alike_witness:
  "heap (tick (Inr twin_created_history) twins) ! 1 =
     (heap twins ! 1)\<lparr>actions :=
        Some [calendar_action ''calendar_event_created'' ''team sync'' ''Mon 14:00'']\<rparr> \<and>
   heap (tick (Inr twin_created_history) twins) ! 3 =
     (heap twins ! 3)\<lparr>actions :=
        Some [calendar_action ''calendar_event_created'' ''team sync'' ''Mon 14:00'']\<rparr> \<and>
   heap (tick (Inr twin_history) twins) ! 1 = heap twins ! 1 \<and>
   heap (tick (Inr twin_history) twins) ! 3 = heap twins ! 3"
proof -
  let ?env = "\<lparr>c_messages = [0, 1, 2, 3], c_input = ''and a lunch'', c_isLoading = False,
                c_sessionId = ''s1'', c_token = Some ''tok''\<rparr>"
  let ?mon = "calendar_action ''calendar_event_pending'' ''team sync'' ''Mon 14:00''"
  let ?tue = "calendar_action ''calendar_event_pending'' ''team sync'' ''Tue 14:00''"
  let ?s = "twins\<lparr>timers := []\<rparr>"
  have t: "timers twins = [\<lparr>t_env = ?env, t_chatSessionId = ''s1'', delay = 3000\<rparr>]"
    by (simp add: example_defs twin_history_def twins_def model_defs Let_def)
  then have tick: "tick (Inr hist) twins = checkCalendarEventStatus ?env ''s1'' (Inr hist) ?s"
    for hist by (simp add: tick_def)
  have g: "poll_guard ?env ''s1''"
    by (simp add: poll_guard_def truthy_def)
  have len: "length (heap twins) = 6"
    by (simp add: example_defs twin_history_def twins_def model_defs Let_def)
  then have v: "valid_refs (heap ?s) (c_messages ?env)"
    by (simp add: valid_refs_def)
  have m: "role (heap ?s ! 1) = ''assistant''" "role (heap ?s ! 3) = ''assistant''"
    "actions (heap ?s ! 1) = Some [?mon]" "actions (heap ?s ! 3) = Some [?tue]"
    by (simp_all add: example_defs twin_history_def twins_def model_defs Let_def)
  have f: "findIndex is_pending [?mon] = Some 0" "findIndex is_pending [?tue] = Some 0"
    "details ([?mon] ! 0) = Some (event ''team sync'' ''Mon 14:00'')"
    "details ([?tue] ! 0) = Some (event ''team sync'' ''Tue 14:00'')"
    "summary (event ''team sync'' ''Mon 14:00'') = summary (event ''team sync'' ''Tue 14:00'')"
    by (simp_all add: calendar_action_def event_def is_pending_def)
  have r: "1 \<in> set (c_messages ?env)" "3 \<in> set (c_messages ?env)"
    by simp_all
  have h1: "find (\<lambda>a. type a = ''calendar_event_created'' \<and>
              (\<exists>da. details a = Some da \<and>
                 summary da = summary (event ''team sync'' ''Mon 14:00'')))
        (history_actions twin_created_history) =
        Some (calendar_action ''calendar_event_created'' ''team sync'' ''Mon 14:00'')"
    by (simp add: example_defs twin_created_history_def history_actions_def)
  have h2: "find (\<lambda>a. type a = ''calendar_event_created'' \<and>
              (\<exists>da. details a = Some da \<and>
                 summary da = summary (event ''team sync'' ''Mon 14:00'')))
        (history_actions twin_history) = None"
    by (simp add: example_defs twin_history_def history_actions_def)
  from equal_summaries_resolve_alike[OF g v refl r m(1,2,3,4) f, of twin_created_history] h1
    equal_summaries_resolve_alike[OF g v refl r m(1,2,3,4) f, of twin_history] h2
  show ?thesis
    by (simp add: tick)
qed

text \<open>
  C2 as stated fails: of two pending team syncs, for Monday and for Tuesday, the history
  has the Monday event created; one poll puts the Monday event in the place of both.
\<close>

theorem twin_takes_the_others_event:
  "timers twins =
     [\<lparr>t_env = \<lparr>c_messages = [0, 1, 2, 3], c_input = ''and a lunch'', c_isLoading = False,
                c_sessionId = ''s1'', c_token = Some ''tok''\<rparr>,
       t_chatSessionId = ''s1'', delay = 3000\<rparr>] \<and>
   actions (heap twins ! 1) =
     Some [calendar_action ''calendar_event_pending'' ''team sync'' ''Mon 14:00''] \<and>
   actions (heap twins ! 3) =
     Some [calendar_action ''calendar_event_pending'' ''team sync'' ''Tue 14:00''] \<and>
   history_actions twin_created_history =
     [calendar_action ''calendar_event_created'' ''team sync'' ''Mon 14:00'',
      calendar_action ''calendar_event_pending'' ''team sync'' ''Tue 14:00''] \<and>
   actions (heap (tick (Inr twin_created_history) twins) ! 1) =
     Some [calendar_action ''calendar_event_created'' ''team sync'' ''Mon 14:00''] \<and>
   actions (heap (tick (Inr twin_created_history) twins) ! 3) =
     Some [calendar_action ''calendar_event_created'' ''team sync'' ''Mon 14:00'']"
  by (simp add: example_defs twin_history_def twin_created_history_def twins_def model_defs
      Let_def)

subsection \<open>C3: a poll that fails\<close>

text \<open>
  C3, as the code has it. When the request of a poll fails, the poll ends there: its
  timer is gone, no timer is set in its place, and neither the message objects nor the
  array of messages change. When the response arrives, a timer of 3000 ms is set in the
  place of the poll's timer exactly when the poll has passed its guard and the response
  resolves no pending action of its snapshot; after a response that resolves one, no
  timer is set either.
\<close>

theorem failed_poll_is_not_retried:
  assumes "timers s = t # ts"
  shows
    "timers (tick (Inl err) s) = ts \<and>
     heap (tick (Inl err) s) = heap s \<and>
     messages (tick (Inl err) s) = messages s \<and>
     timers (tick (Inr updatedHistory) s) =
       (if poll_guard (t_env t) (t_chatSessionId t) \<and>
           no_match updatedHistory (heap s) (c_messages (t_env t))
        then ts @ [\<lparr>t_env = t_env t, t_chatSessionId = t_chatSessionId t, delay = 3000\<rparr>]
        else ts)"
proof -
  have "timers (tick (Inr updatedHistory) s) =
       (if poll_guard (t_env t) (t_chatSessionId t) \<and>
           no_match updatedHistory (heap s) (c_messages (t_env t))
        then ts @ [\<lparr>t_env = t_env t, t_chatSessionId = t_chatSessionId t, delay = 3000\<rparr>]
        else ts)"
  proof (cases "poll_guard (t_env t) (t_chatSessionId t)")
    case True
    then show ?thesis
      by (simp add: tick_Cons[OF assms] poll_timers)
  next
    case False
    then show ?thesis
      by (simp add: tick_Cons[OF assms] checkCalendarEventStatus_def)
  qed
  then show ?thesis
    using assms
    by (simp add: tick_def checkCalendarEventStatus_def checkCalendarEventStatus_resume_def
        checkCalendarEventStatus_request_def)
qed

text \<open>The theorem at the view \<open>polling\<close>, whose one timer is the poll of the session: a
  failed request, a response that resolves the team sync, and one that resolves nothing.\<close>

theorem failed_poll_is_not_retried_witness:
  "timers polling = [\<lparr>t_env = render asking, t_chatSessionId = ''s1'', delay = 3000\<rparr>] \<and>
   timers (tick (Inl RequestFailed) polling) = [] \<and>
   heap (tick (Inl RequestFailed) polling) = heap polling \<and>
   messages (tick (Inl RequestFailed) polling) = messages polling \<and>
   timers (tick (Inr created_history) polling) = [] \<and>
   timers (tick (Inr sync_history) polling) =
     [\<lparr>t_env = render asking, t_chatSessionId = ''s1'', delay = 3000\<rparr>]"
proof -
  let ?t = "\<lparr>t_env = render asking, t_chatSessionId = ''s1'', delay = 3000\<rparr>"
  have t: "timers polling = [?t]"
    by (simp add: example_defs model_defs Let_def)
  have g: "poll_guard (t_env ?t) (t_chatSessionId ?t)"
    by (simp add: example_defs model_defs)
  have n1: "\<not> no_match created_history (heap polling) (c_messages (t_env ?t))"
    by (simp add: no_match_def example_defs model_defs Let_def)
  have n2: "no_match sync_history (heap polling) (c_messages (t_env ?t))"
    by (simp add: no_match_def example_defs model_defs Let_def)
  from failed_poll_is_not_retried[OF t, of RequestFailed created_history]
    failed_poll_is_not_retried[OF t, of RequestFailed sync_history] t g n1 n2
  show ?thesis
    by simp
qed

text \<open>
  C3 as stated fails: after a poll without a match the timer is set again, after a
  poll whose request failed no timer is left.
\<close>

theorem failed_poll_ends_polling:
  "timers polling = [\<lparr>t_env = render asking, t_chatSessionId = ''s1'', delay = 3000\<rparr>] \<and>
   timers (tick (Inr sync_history) polling) =
     [\<lparr>t_env = render asking, t_chatSessionId = ''s1'', delay = 3000\<rparr>] \<and>
   timers (tick (Inl RequestFailed) polling) = []"
  by (simp add: example_defs model_defs Let_def)

subsection \<open>C4: session switch\<close>

lemma tick_sessionId:
  "heap (tick result (s\<lparr>sessionId := a\<rparr>)) = heap (tick result s)"
  "timers (tick result (s\<lparr>sessionId := a\<rparr>)) = timers (tick result s)"
  by (auto simp: tick_def checkCalendarEventStatus_def checkCalendarEventStatus_resume_def
      checkCalendarEventStatus_request_def split: list.splits sum.splits prod.splits)

lemma tick_effects:
  "heap (tick result (s\<lparr>effects := b\<rparr>)) = heap (tick result s)"
  "timers (tick result (s\<lparr>effects := b\<rparr>)) = timers (tick result s)"
  by (auto simp: tick_def checkCalendarEventStatus_def checkCalendarEventStatus_resume_def
      checkCalendarEventStatus_request_def split: list.splits sum.splits prod.splits)

lemma tick_messages:
  "heap (tick result (s\<lparr>messages := c\<rparr>)) = heap (tick result s)"
  "timers (tick result (s\<lparr>messages := c\<rparr>)) = timers (tick result s)"
  by (auto simp: tick_def checkCalendarEventStatus_def checkCalendarEventStatus_resume_def
      checkCalendarEventStatus_request_def split: list.splits sum.splits prod.splits)

text \<open>
  C4, as the code has it. A switch of the session cancels nothing: the timers are the
  same after it, and the next poll changes the message objects and sets its timers as
  it would have done without the switch.
\<close>

theorem session_switch_cancels_nothing:
  "timers (switchSession newId s) = timers s \<and>
   heap (tick result (switchSession newId s)) = heap (tick result s) \<and>
   timers (tick result (switchSession newId s)) = timers (tick result s)"
  by (simp add: switchSession_def Let_def tick_sessionId tick_effects tick_messages)

text \<open>
  C4 as stated fails: the user leaves the session \<open>s1\<close> for a new conversation, whose
  log is empty; the poll of \<open>s1\<close> then runs, writes the created event into the message
  object of \<open>s1\<close> and makes the messages of \<open>s1\<close> the log.
\<close>

theorem poll_writes_after_switch:
  "messages (switchSession ''new'' polling) = [] \<and>
   actions (heap (switchSession ''new'' polling) ! 1) =
     Some [calendar_action ''calendar_event_pending'' ''team sync'' ''Mon 14:00''] \<and>
   messages (tick (Inr created_history) (switchSession ''new'' polling)) = [0, 1] \<and>
   actions (heap (tick (Inr created_history) (switchSession ''new'' polling)) ! 1) =
     Some [calendar_action ''calendar_event_created'' ''team sync'' ''Mon 14:00'']"
  by (simp add: example_defs model_defs Let_def)

text \<open>The theorem at the view \<open>polling\<close> and a switch to a new conversation.\<close>

theorem session_switch_cancels_nothing_witness:
  "timers (switchSession ''new'' polling) = timers polling \<and>
   timers (tick (Inr sync_history) (switchSession ''new'' polling)) =
     [\<lparr>t_env = render asking, t_chatSessionId = ''s1'', delay = 3000\<rparr>]"
proof -
  have "timers (tick (Inr sync_history) polling) =
     [\<lparr>t_env = render asking, t_chatSessionId = ''s1'', delay = 3000\<rparr>]"
    by (simp add: example_defs model_defs Let_def)
  with session_switch_cancels_nothing[of "''new''" polling "Inr sync_history"]
  show ?thesis by simp
qed

subsection \<open>C5: polling without a match\<close>







subsection \<open>C6: a message appended while a poll is under way\<close>

text \<open>
  C6 fails on the code. The poll of the view \<open>polling\<close> has issued its request; the user
  submits \<open>thanks\<close>, which is appended as the fifth message; the response of the poll
  arrives with the created event, and \<^verbatim>\<open>setMessages(updatedMessages)\<close> makes the
  array of the poll's closure the log: the two messages loaded at the start. The
  message appended during the poll is gone, and so are the two before it.
\<close>

theorem turn_appended_during_poll_is_lost:
  "timers polling = [\<lparr>t_env = render asking, t_chatSessionId = ''s1'', delay = 3000\<rparr>] \<and>
   poll_guard (render asking) ''s1'' \<and>
   messages thanking = [0, 1, 2, 3, 4] \<and>
   role (heap thanking ! 4) = ''user'' \<and> content (heap thanking ! 4) = ''thanks'' \<and>
   messages reconciled = [0, 1]"
  by (simp add: example_defs in_flight_def thanking_def reconciled_def model_defs Let_def)


subsection \<open>C7: a submit that fails\<close>

text \<open>
  C7. When the request of a submit fails, the log is the log before the submit with the
  user's message and then one error message at its end, and nothing else has changed
  in it; the error message is the assistant's and is marked \<^verbatim>\<open>isError\<close>. The submit
  has issued its one request and no other, and has set no timer. The same holds when
  other steps ran while the request was under way: the failure adds the one error
  message to the log of that moment, and issues and schedules nothing.
\<close>

theorem failed_submit_appends_one_error_turn:
  assumes "send_guard (render s)"
  shows
    "messages (handleSendMessage now now' (Inl err) s) =
       messages s @ [length (heap s), Suc (length (heap s))] \<and>
     heap (handleSendMessage now now' (Inl err) s) =
       heap s @ [userMessage (render s) now, errorMessage now'] \<and>
     isError (errorMessage now') \<and> role (errorMessage now') = ''assistant'' \<and>
     effects (handleSendMessage now now' (Inl err) s) =
       effects s @ [Post (request_payload (render s) (heap s))] \<and>
     timers (handleSendMessage now now' (Inl err) s) = timers s \<and>
     messages (handleSendMessage_resume env now' (Inl err) s') = messages s' @ [length (heap s')] \<and>
     heap (handleSendMessage_resume env now' (Inl err) s') = heap s' @ [errorMessage now'] \<and>
     effects (handleSendMessage_resume env now' (Inl err) s') = effects s' \<and>
     timers (handleSendMessage_resume env now' (Inl err) s') = timers s'"
  using assms
  by (simp add: handleSendMessage_def handleSendMessage_resume_def handleSendMessage_request_def
      append_message_def alloc_def Let_def errorMessage_def)

text \<open>The theorem at the view \<open>asking\<close>.\<close>

theorem failed_submit_appends_one_error_turn_witness:
  "send_guard (render asking) \<and>
   messages (handleSendMessage 10 11 (Inl RequestFailed) asking) = [0, 1, 2, 3] \<and>
   map content (drop 2 (heap (handleSendMessage 10 11 (Inl RequestFailed) asking))) =
     [''and a lunch'',
      ''Sorry, I encountered an error processing your request. Please try again.''] \<and>
   timers (handleSendMessage 10 11 (Inl RequestFailed) asking) = []"
proof -
  have g: "send_guard (render asking)"
    by (simp add: example_defs model_defs)
  have e: "timers asking = []" "messages asking = [0, 1]" "length (heap asking) = 2"
    by (simp_all add: example_defs model_defs)
  from failed_submit_appends_one_error_turn[OF g, of 10 11 RequestFailed] g e show ?thesis
    by (simp add: userMessage_def errorMessage_def render_def asking_def setInput_def)
qed


subsection \<open>C8: how many actions a scan replaces\<close>

lemma matches_not_pending: "matches p c \<Longrightarrow> \<not> is_pending c"
  by (auto simp: matches_def is_pending_def)

lemma scan_message_SomeD:
  assumes "scan_message updatedHistory m = Some m'"
  shows "\<exists>as i c. actions m = Some as \<and> findIndex is_pending as = Some i \<and> i < length as \<and>
     is_pending (as ! i) \<and> (\<forall>j<i. \<not> is_pending (as ! j)) \<and> \<not> is_pending c \<and>
     m' = m\<lparr>actions := Some (as[i := c])\<rparr>"
proof -
  from assms obtain as i c where *: "actions m = Some as" "findIndex is_pending as = Some i"
    "find (matches (as ! i)) (history_actions updatedHistory) = Some c"
    "m' = m\<lparr>actions := Some (as[i := c])\<rparr>"
    unfolding scan_message_iff by blast
  from find_SomeD[OF *(3)] have "\<not> is_pending c"
    using matches_not_pending by blast
  with findIndex_SomeD[OF *(2)] * show ?thesis by blast
qed

lemma update_actions_eq:
  "m\<lparr>actions := Some (as[i := c])\<rparr> = m\<lparr>actions := Some (as[i := c'])\<rparr> \<Longrightarrow> i < length as \<Longrightarrow>
   c = c'"
proof -
  assume e: "m\<lparr>actions := Some (as[i := c])\<rparr> = m\<lparr>actions := Some (as[i := c'])\<rparr>"
    and i: "i < length as"
  from e have "actions (m\<lparr>actions := Some (as[i := c])\<rparr>) =
      actions (m\<lparr>actions := Some (as[i := c'])\<rparr>)"
    by simp
  then have "as[i := c] ! i = as[i := c'] ! i"
    by simp
  with i show ?thesis by simp
qed

lemma step_message_summary:
  assumes "actions m = Some as" "findIndex is_pending as = Some i" "details (as ! i) = Some d"
    and "step_message hist m = m\<lparr>actions := Some (as[i := c])\<rparr>"
  shows "\<exists>dc. details c = Some dc \<and> summary dc = summary d"
proof (cases "scan_message hist m")
  case None
  have i: "i < length as"
    using findIndex_SomeD[OF assms(2)] by simp
  from None assms(4) have "m\<lparr>actions := Some (as[i := as ! i])\<rparr> = m\<lparr>actions := Some (as[i := c])\<rparr>"
    using assms(1) by (simp add: step_message_def)
  from update_actions_eq[OF this i] assms(3) show ?thesis
    by auto
next
  case (Some m')
  then obtain c' where c': "find (matches (as ! i)) (history_actions hist) = Some c'"
    "m' = m\<lparr>actions := Some (as[i := c'])\<rparr>"
    unfolding scan_message_iff using assms(1,2) by auto
  have i: "i < length as"
    using findIndex_SomeD[OF assms(2)] by simp
  from Some assms(4) c'(2) have "m\<lparr>actions := Some (as[i := c'])\<rparr> = m\<lparr>actions := Some (as[i := c])\<rparr>"
    by (simp add: step_message_def)
  from update_actions_eq[OF this i] have "c' = c" .
  with find_SomeD[OF c'(1)] have "matches (as ! i) c"
    by simp
  from matchesD[OF this] assms(3) show ?thesis
    by auto
qed

text \<open>
  C8, as the code has it. The scan visits the messages of the snapshot from the last to
  the first and goes on after a replacement. It adds and removes no message object. A
  message object of the snapshot is left as one pass of the loop body leaves it, any
  other object is untouched, and \<^verbatim>\<open>updated\<close> tells whether some message of the
  snapshot was changed. A changed message has its first pending action, and no other
  action, replaced, by an action that is not pending; whatever a later scan does to the
  message, the replaced place keeps that action. When the first pending actions of two
  messages have details with different summaries, no action of the history is put in
  the place of both: for pending actions told apart by their summaries an entry of the
  history makes at most one replacement. With equal summaries one entry replaces both.
\<close>

theorem scan_replaces_once_per_turn:
  assumes "valid_refs h refs"
    and "scan_loop updatedHistory (rev refs) (h, False) = (h', updated)"
  shows
    "length h' = length h \<and>
     (\<forall>k<length h.
        h' ! k = (if k \<in> set refs then step_message updatedHistory (h ! k) else h ! k)) \<and>
     (updated \<longleftrightarrow> (\<exists>r\<in>set refs. scan_message updatedHistory (h ! r) \<noteq> None)) \<and>
     (\<forall>k<length h. \<forall>m'. scan_message updatedHistory (h ! k) = Some m' \<longrightarrow>
        (\<exists>as i c. actions (h ! k) = Some as \<and> findIndex is_pending as = Some i \<and>
           i < length as \<and> is_pending (as ! i) \<and> \<not> is_pending c \<and>
           m' = (h ! k)\<lparr>actions := Some (as[i := c])\<rparr> \<and>
           (\<forall>hist m''. scan_message hist m' = Some m'' \<longrightarrow>
              (\<exists>as''. actions m'' = Some as'' \<and> as'' ! i = c)))) \<and>
     (\<forall>r1\<in>set refs. \<forall>r2\<in>set refs. \<forall>as1 as2 i1 i2 d1 d2 c.
        actions (h ! r1) = Some as1 \<and> findIndex is_pending as1 = Some i1 \<and>
        details (as1 ! i1) = Some d1 \<and>
        actions (h ! r2) = Some as2 \<and> findIndex is_pending as2 = Some i2 \<and>
        details (as2 ! i2) = Some d2 \<and>
        summary d1 \<noteq> summary d2 \<longrightarrow>
        \<not> (h' ! r1 = (h ! r1)\<lparr>actions := Some (as1[i1 := c])\<rparr> \<and>
           h' ! r2 = (h ! r2)\<lparr>actions := Some (as2[i2 := c])\<rparr>))"
proof -
  have d: "distinct (rev refs)" and r: "\<forall>r\<in>set (rev refs). r < length h"
    using assms(1) by (simp_all add: valid_refs_def list_all_iff)
  have len: "length h' = length h"
    using scan_loop_length[of updatedHistory "rev refs" h False] assms(2) by simp
  have nth: "\<forall>k<length h.
        h' ! k = (if k \<in> set refs then step_message updatedHistory (h ! k) else h ! k)"
    using scan_loop_nth[OF d r, of _ updatedHistory False] assms(2) by simp
  have upd: "updated \<longleftrightarrow> (\<exists>r\<in>set refs. scan_message updatedHistory (h ! r) \<noteq> None)"
    using scan_loop_updated[OF d r, of updatedHistory False] assms(2) by simp
  have once: "\<exists>as i c. actions m = Some as \<and> findIndex is_pending as = Some i \<and>
           i < length as \<and> is_pending (as ! i) \<and> \<not> is_pending c \<and>
           m' = m\<lparr>actions := Some (as[i := c])\<rparr> \<and>
           (\<forall>hist m''. scan_message hist m' = Some m'' \<longrightarrow>
              (\<exists>as''. actions m'' = Some as'' \<and> as'' ! i = c))"
    if "scan_message updatedHistory m = Some m'" for m m'
  proof -
    from scan_message_SomeD[OF that] obtain as i c where
      *: "actions m = Some as" "findIndex is_pending as = Some i" "i < length as"
         "is_pending (as ! i)" "\<not> is_pending c" "m' = m\<lparr>actions := Some (as[i := c])\<rparr>"
      by blast
    have "\<exists>as''. actions m'' = Some as'' \<and> as'' ! i = c"
      if "scan_message hist m' = Some m''" for hist m''
    proof -
      from scan_message_SomeD[OF that] obtain j c' where
        j: "findIndex is_pending (as[i := c]) = Some j" "j < length (as[i := c])"
           "is_pending (as[i := c] ! j)" "m'' = m'\<lparr>actions := Some (as[i := c, j := c'])\<rparr>"
        using *(6) by auto
      have "j \<noteq> i"
        using j(3) *(3,5) by auto
      then show ?thesis
        using j(4) *(3) by simp
    qed
    with * show ?thesis by blast
  qed
  have entry: "\<not> (h' ! r1 = (h ! r1)\<lparr>actions := Some (as1[i1 := c])\<rparr> \<and>
           h' ! r2 = (h ! r2)\<lparr>actions := Some (as2[i2 := c])\<rparr>)"
    if "r1 \<in> set refs" "r2 \<in> set refs"
      and 1: "actions (h ! r1) = Some as1" "findIndex is_pending as1 = Some i1"
        "details (as1 ! i1) = Some d1"
      and 2: "actions (h ! r2) = Some as2" "findIndex is_pending as2 = Some i2"
        "details (as2 ! i2) = Some d2"
      and ne: "summary d1 \<noteq> summary d2"
    for r1 r2 as1 as2 i1 i2 d1 d2 c
  proof
    assume both: "h' ! r1 = (h ! r1)\<lparr>actions := Some (as1[i1 := c])\<rparr> \<and>
           h' ! r2 = (h ! r2)\<lparr>actions := Some (as2[i2 := c])\<rparr>"
    have s1: "step_message updatedHistory (h ! r1) = (h ! r1)\<lparr>actions := Some (as1[i1 := c])\<rparr>"
      using both nth r that(1) by simp
    have s2: "step_message updatedHistory (h ! r2) = (h ! r2)\<lparr>actions := Some (as2[i2 := c])\<rparr>"
      using both nth r that(2) by simp
    from step_message_summary[OF 1 s1] step_message_summary[OF 2 s2] ne
    show False by auto
  qed
  from len nth upd once entry show ?thesis by blast
qed

text \<open>The theorem at the view with the two pending events and the history with both
  created.\<close>

theorem scan_replaces_once_per_turn_witness:
  "valid_refs (heap pair) [0, 1, 2, 3] \<and>
   length (fst (scan_loop pair_created_history (rev [0, 1, 2, 3]) (heap pair, False))) = 6 \<and>
   snd (scan_loop pair_created_history (rev [0, 1, 2, 3]) (heap pair, False)) \<and>
   fst (scan_loop pair_created_history (rev [0, 1, 2, 3]) (heap pair, False)) ! 5 =
     heap pair ! 5 \<and>
   actions (fst (scan_loop pair_created_history (rev [0, 1, 2, 3]) (heap pair, False)) ! 3) =
     Some [calendar_action ''calendar_event_created'' ''dentist'' ''Wed 9:00'']"
proof -
  let ?r = "scan_loop pair_created_history (rev [0, 1, 2, 3]) (heap pair, False)"
  have l: "length (heap pair) = 6"
    by (simp add: example_defs pair_history_def pair_def model_defs Let_def)
  then have v: "valid_refs (heap pair) [0, 1, 2, 3]"
    by (simp add: valid_refs_def)
  have e: "?r = (fst ?r, snd ?r)"
    by simp
  have s3: "scan_message pair_created_history (heap pair ! 3) =
      Some ((heap pair ! 3)\<lparr>actions :=
        Some [calendar_action ''calendar_event_created'' ''dentist'' ''Wed 9:00'']\<rparr>)"
    by (simp add: example_defs pair_history_def pair_created_history_def pair_def model_defs
        Let_def)
  from scan_replaces_once_per_turn[OF v e]
  have "length (fst ?r) = length (heap pair)"
    and n: "\<forall>k<length (heap pair). fst ?r ! k =
        (if k \<in> set [0, 1, 2, 3] then step_message pair_created_history (heap pair ! k)
         else heap pair ! k)"
    and u: "snd ?r \<longleftrightarrow>
        (\<exists>r\<in>set [0, 1, 2, 3]. scan_message pair_created_history (heap pair ! r) \<noteq> None)"
    by blast+
  moreover from n l have "fst ?r ! 5 = heap pair ! 5"
    "fst ?r ! 3 = step_message pair_created_history (heap pair ! 3)"
    by simp_all
  moreover from u s3 have "snd ?r"
    by simp
  ultimately show ?thesis
    using v l s3 by (simp add: step_message_def)
qed

text \<open>
  C8 as stated fails: the history has one created action, the team sync of Monday; the
  snapshot has a pending team sync for Monday in its second message and one for Tuesday
  in its fourth. One scan makes two replacements with the one entry: it puts the Monday
  event in the place of both.
\<close>

theorem one_entry_replaces_two_pending:
  "history_actions twin_created_history =
     [calendar_action ''calendar_event_created'' ''team sync'' ''Mon 14:00'',
      calendar_action ''calendar_event_pending'' ''team sync'' ''Tue 14:00''] \<and>
   actions (heap twins ! 1) =
     Some [calendar_action ''calendar_event_pending'' ''team sync'' ''Mon 14:00''] \<and>
   actions (heap twins ! 3) =
     Some [calendar_action ''calendar_event_pending'' ''team sync'' ''Tue 14:00''] \<and>
   snd (scan_loop twin_created_history (rev [0, 1, 2, 3]) (heap twins, False)) \<and>
   actions (fst (scan_loop twin_created_history (rev [0, 1, 2, 3]) (heap twins, False)) ! 1) =
     Some [calendar_action ''calendar_event_created'' ''team sync'' ''Mon 14:00''] \<and>
   actions (fst (scan_loop twin_created_history (rev [0, 1, 2, 3]) (heap twins, False)) ! 3) =
     Some [calendar_action ''calendar_event_created'' ''team sync'' ''Mon 14:00'']"
  by (simp add: example_defs twin_history_def twin_created_history_def twins_def model_defs
      Let_def)

subsection \<open>C9: a submit that is refused\<close>

lemma trim_empty_iff: "trim x = [] \<longleftrightarrow> (\<forall>c\<in>set x. is_space c)"
proof
  assume "trim x = []"
  then have "\<forall>c\<in>set (dropWhile is_space x). is_space c"
    by (simp add: trim_def dropWhile_eq_Nil_conv)
  then have "dropWhile is_space x = []"
    using hd_dropWhile[of is_space x] by (cases "dropWhile is_space x") auto
  then show "\<forall>c\<in>set x. is_space c"
    by (simp add: dropWhile_eq_Nil_conv)
next
  assume "\<forall>c\<in>set x. is_space c"
  then show "trim x = []"
    by (auto simp: trim_def dest: set_dropWhileD)
qed

text \<open>
  C9. When the input is empty or consists of white space only, or a submit is still
  under way (\<^verbatim>\<open>isLoading\<close>), a submit leaves the whole state of the view as it is: no
  message is appended, no request is issued, the log is unchanged.
\<close>

theorem blank_or_busy_submit_does_nothing:
  "(\<forall>c\<in>set (input s). is_space c) \<or> isLoading s \<Longrightarrow>
   handleSendMessage now now' result s = s \<and>
   handleSendMessage_request (render s) now s = s"
  by (auto simp: handleSendMessage_def handleSendMessage_request_def send_guard_def render_def
      trim_empty_iff)

text \<open>The theorem at an input of a space and a tab, and at a submit during another.\<close>

theorem blank_or_busy_submit_does_nothing_witness:
  "handleSendMessage 10 11 (Inr lunch_reply) (setInput [CHR '' '', CHR 0x09] loaded) =
     setInput [CHR '' '', CHR 0x09] loaded \<and>
   isLoading (handleSendMessage_request (render asking) 10 asking) \<and>
   handleSendMessage 12 13 (Inr lunch_reply)
     (setInput ''more'' (handleSendMessage_request (render asking) 10 asking)) =
     setInput ''more'' (handleSendMessage_request (render asking) 10 asking)"
proof -
  have a: "(\<forall>c\<in>set (input (setInput [CHR '' '', CHR 0x09] loaded)). is_space c) \<or>
      isLoading (setInput [CHR '' '', CHR 0x09] loaded)"
    by (simp add: setInput_def is_space_def)
  have b: "isLoading (handleSendMessage_request (render asking) 10 asking)"
    by (simp add: example_defs model_defs Let_def)
  then have c: "(\<forall>c\<in>set (input (setInput ''more'' (handleSendMessage_request (render asking) 10 asking))). is_space c) \<or>
      isLoading (setInput ''more'' (handleSendMessage_request (render asking) 10 asking))"
    by (simp add: setInput_def)
  from blank_or_busy_submit_does_nothing[OF a, of 10 11 "Inr lunch_reply"]
    blank_or_busy_submit_does_nothing[OF c, of 12 13 "Inr lunch_reply"] b
  show ?thesis by simp
qed


subsection \<open>C10: the history sent with a submit\<close>

lemma history_of_valid:
  "list_all (\<lambda>r. r < length h) refs \<Longrightarrow>
   history_of h refs = map (\<lambda>r. (role (h ! r), content (h ! r))) refs"
  by (simp add: history_of_def list_all_iff)

text \<open>
  C10. A submit that passes its guard issues one request: its \<^verbatim>\<open>prompt\<close> is the
  input, and its \<^verbatim>\<open>message_history\<close> is the role and the content of each message of
  the log as it was before the submit, in order. The user's message, whose content is
  the input, is a new object appended to the log, and it is none of the messages the
  history was made from.
\<close>

theorem history_is_the_log_before_the_append:
  assumes "send_guard (render s)" "valid_refs (heap s) (messages s)"
  shows
    "effects (handleSendMessage_request (render s) now s) =
       effects s @ [Post (request_payload (render s) (heap s))] \<and>
     prompt (request_payload (render s) (heap s)) = input s \<and>
     message_history (request_payload (render s) (heap s)) =
       map (\<lambda>r. (role (heap s ! r), content (heap s ! r))) (messages s) \<and>
     messages (handleSendMessage_request (render s) now s) = messages s @ [length (heap s)] \<and>
     heap (handleSendMessage_request (render s) now s) = heap s @ [userMessage (render s) now] \<and>
     content (userMessage (render s) now) = input s \<and>
     length (heap s) \<notin> set (messages s)"
proof -
  have range: "list_all (\<lambda>r. r < length (heap s)) (messages s)"
    using assms(2) by (simp add: valid_refs_def)
  then have "length (heap s) \<notin> set (messages s)"
    by (auto simp: list_all_iff)
  moreover have "message_history (request_payload (render s) (heap s)) =
       map (\<lambda>r. (role (heap s ! r), content (heap s ! r))) (messages s)"
    using history_of_valid[OF range] by (simp add: request_payload_def render_def)
  ultimately show ?thesis
    using assms(1)
    by (simp add: handleSendMessage_request_def append_message_def alloc_def Let_def
        request_payload_def userMessage_def render_def)
qed

text \<open>The theorem at the view \<open>asking\<close>.\<close>

theorem history_is_the_log_before_the_append_witness:
  "send_guard (render asking) \<and> valid_refs (heap asking) (messages asking) \<and>
   effects (handleSendMessage_request (render asking) 10 asking) =
     [Get ''s1'',
      Post \<lparr>prompt = ''and a lunch'',
            message_history = [(''user'', ''Schedule team sync''), (''assistant'', ''Scheduling it.'')],
            session_id = Some ''s1'', payload_token = Some ''tok''\<rparr>] \<and>
   messages (handleSendMessage_request (render asking) 10 asking) = [0, 1, 2]"
proof -
  have g: "send_guard (render asking)"
    by (simp add: example_defs model_defs)
  have v: "valid_refs (heap asking) (messages asking)"
    by (simp add: example_defs model_defs valid_refs_def)
  have e: "effects asking = [Get ''s1'']" "messages asking = [0, 1]" "length (heap asking) = 2"
    by (simp_all add: example_defs model_defs)
  have p: "request_payload (render asking) (heap asking) =
     \<lparr>prompt = ''and a lunch'',
            message_history = [(''user'', ''Schedule team sync''), (''assistant'', ''Scheduling it.'')],
            session_id = Some ''s1'', payload_token = Some ''tok''\<rparr>"
    by (simp add: example_defs model_defs)
  from history_is_the_log_before_the_append[OF g v, of 10] g v e p show ?thesis
    by simp
qed

end
